theory Spec2Isabelle
  imports Main "HOL-Library.Sublist"
begin

section \<open>The reactive controller of the headless package\<close>

text \<open>
  The development embeds \<open>buildController\<close> (the controller base of the headless
  package): the closure variable \<open>prevState\<close>, the helper \<open>hasStateChanged\<close>, the method
  \<open>subscribe\<close> and the arrow function that \<open>subscribe\<close> hands to the engine.

  Two things the source uses are not part of it and are parameters of every definition:
  \<^item> \<open>stringify\<close> stands for \<open>JSON.stringify\<close> applied to a derived state; \<open>None\<close> is the
    call throwing a \<open>TypeError\<close>, \<open>Some s\<close> is the call returning the string \<open>s\<close>;
  \<^item> \<open>derive\<close> stands for the getter \<open>state\<close> of the concrete controller (the base returns
    \<open>{}\<close>, concrete controllers override it with a projection of the engine's state).
\<close>

subsection \<open>Outcomes, listeners and observable events\<close>

text \<open>
  A JavaScript call either returns or throws. \<open>TypeError\<close> is what \<open>JSON.stringify\<close> throws
  on a value it cannot serialize; \<open>ListenerError n\<close> is an exception thrown by the body of
  listener \<open>n\<close>.
\<close>

datatype error = TypeError | ListenerError nat

text \<open>
  A listener is a function \<open>() => void\<close> supplied by the caller. Its body is unknown; the
  model keeps its identity and whether its body throws (the same at every call). A listener
  is taken not to dispatch, subscribe or unsubscribe from within its body.
\<close>

datatype listener = Listener (ident: nat) (throwing: bool)

text \<open>
  The trace records, in program order, the effects of the controller's code:
  a call of a listener, the \<open>console.warn\<close> of \<open>hasStateChanged\<close>, and an assignment to
  \<open>prevState\<close>.
\<close>

datatype event = Called nat | Warned | Stored string

text \<open>
  One engine together with one controller built on it. \<open>prevState\<close> is the variable
  declared by \<open>let prevState: string\<close> in \<open>buildController\<close>; it is \<open>None\<close> until first
  assigned. \<open>registered\<close> lists the callbacks the engine holds, oldest first, each under the
  handle that stands for the \<open>Unsubscribe\<close> function returned for it. A callback created
  by \<open>subscribe\<close> differs from its siblings only in the listener it closes over, so it is
  represented by that listener. Callbacks that other parties register with the same engine
  cannot reach \<open>prevState\<close> and are left out.
\<close>

record 's world =
  store :: 's
  registered :: "(nat \<times> listener) list"
  issued :: nat
  prevState :: "string option"
  trace :: "event list"

subsection \<open>The engine\<close>

text \<open>
  Modelled from the spec: the engine (\<open>Engine\<close> of \<open>app/headless-engine\<close>, a store) is not
  among the sources. The spec gives it \<open>onUpdate(callback) -> Unsubscribe\<close>: the callback is
  added to the store's subscriptions; here it is appended and a fresh handle is returned.
\<close>

definition engine_subscribe :: "listener \<Rightarrow> 's world \<Rightarrow> nat \<times> 's world" where
  "engine_subscribe cb w =
     (issued w, w\<lparr>registered := registered w @ [(issued w, cb)], issued := Suc (issued w)\<rparr>)"

text \<open>
  Modelled from the spec: the \<open>Unsubscribe\<close> function returned by the engine, missing with
  the engine. The spec: it "removes the internal callback from the Store; calling it more
  than once is a no-op".
\<close>

definition unsubscribe :: "nat \<Rightarrow> 's world \<Rightarrow> (error + unit) \<times> 's world" where
  "unsubscribe h w = (Inr (), w\<lparr>registered := filter (\<lambda>r. fst r \<noteq> h) (registered w)\<rparr>)"

subsection \<open>The controller\<close>

text \<open>The call \<open>listener()\<close>.\<close>

definition invoke :: "listener \<Rightarrow> 's world \<Rightarrow> (error + unit) \<times> 's world" where
  "invoke l w =
     (if throwing l then Inl (ListenerError (ident l)) else Inr (),
      w\<lparr>trace := trace w @ [Called (ident l)]\<rparr>)"

text \<open>
  \<open>hasStateChanged\<close>: the body is one \<open>try\<close>; in it the state is serialized, compared with
  \<open>prevState\<close> by \<open>!==\<close> and stored in \<open>prevState\<close>. The \<open>catch\<close> warns and returns \<open>true\<close>.
\<close>

definition hasStateChanged ::
  "('v \<Rightarrow> string option) \<Rightarrow> 'v \<Rightarrow> 's world \<Rightarrow> bool \<times> 's world" where
  "hasStateChanged stringify currentState w =
     (case stringify currentState of
        Some stringifiedState \<Rightarrow>
          (prevState w \<noteq> Some stringifiedState,
           w\<lparr>prevState := Some stringifiedState, trace := trace w @ [Stored stringifiedState]\<rparr>)
      | None \<Rightarrow> (True, w\<lparr>trace := trace w @ [Warned]\<rparr>))"

text \<open>
  The arrow function \<open>() => { if (hasStateChanged(this.state)) { listener(); } }\<close> that
  \<open>subscribe\<close> registers with the engine.
\<close>

definition callback ::
  "('v \<Rightarrow> string option) \<Rightarrow> ('s \<Rightarrow> 'v) \<Rightarrow> listener \<Rightarrow> 's world \<Rightarrow> (error + unit) \<times> 's world" where
  "callback stringify derive l w =
     (case hasStateChanged stringify (derive (store w)) w of
        (True, w') \<Rightarrow> invoke l w'
      | (False, w') \<Rightarrow> (Inr (), w'))"

text \<open>
  \<open>subscribe\<close>: \<open>listener()\<close>, then \<open>prevState = JSON.stringify(this.state)\<close> (outside any
  \<open>try\<close>), then \<open>return engine.subscribe(...)\<close>. The result is the handle of the
  \<open>Unsubscribe\<close> function.
\<close>

definition subscribe ::
  "('v \<Rightarrow> string option) \<Rightarrow> ('s \<Rightarrow> 'v) \<Rightarrow> listener \<Rightarrow> 's world \<Rightarrow> (error + nat) \<times> 's world" where
  "subscribe stringify derive l w =
     (case invoke l w of
        (Inl e, w1) \<Rightarrow> (Inl e, w1)
      | (Inr _, w1) \<Rightarrow>
          (case stringify (derive (store w1)) of
             None \<Rightarrow> (Inl TypeError, w1)
           | Some s \<Rightarrow>
               (case engine_subscribe l (w1\<lparr>prevState := Some s, trace := trace w1 @ [Stored s]\<rparr>) of
                  (h, w2) \<Rightarrow> (Inr h, w2))))"

text \<open>\<open>buildController(engine)\<close>: a fresh closure, \<open>prevState\<close> not yet assigned.\<close>

definition buildController :: "'s \<Rightarrow> 's world" where
  "buildController s = \<lparr>store = s, registered = [], issued = 0, prevState = None, trace = []\<rparr>"

subsection \<open>Store updates\<close>

text \<open>
  Modelled from the spec: the store's notification, missing with the engine. The spec: the
  store "calls registered update callbacks after each committed state transition", and "a
  throwing listener propagates to the Store's notification dispatch". The callbacks run
  oldest first; an exception leaves the loop.
\<close>

fun notify ::
  "('v \<Rightarrow> string option) \<Rightarrow> ('s \<Rightarrow> 'v) \<Rightarrow> listener list \<Rightarrow> 's world \<Rightarrow> (error + unit) \<times> 's world" where
  "notify stringify derive [] w = (Inr (), w)"
| "notify stringify derive (l # ls) w =
     (case callback stringify derive l w of
        (Inl e, w') \<Rightarrow> (Inl e, w')
      | (Inr _, w') \<Rightarrow> notify stringify derive ls w')"

text \<open>
  Modelled from the spec: a store update, missing with the engine: the new state is
  committed, then the registered callbacks are notified.
\<close>

definition update ::
  "('v \<Rightarrow> string option) \<Rightarrow> ('s \<Rightarrow> 'v) \<Rightarrow> 's \<Rightarrow> 's world \<Rightarrow> (error + unit) \<times> 's world" where
  "update stringify derive s w =
     notify stringify derive (map snd (registered w)) (w\<lparr>store := s\<rparr>)"

subsection \<open>Histories\<close>

text \<open>
  What application code can do with the controller and the engine. An exception thrown by a
  step reaches the application; the effects the step had before throwing stay.
\<close>

datatype 's action = Subscribe listener | Unsubscribe nat | Update 's

fun step ::
  "('v \<Rightarrow> string option) \<Rightarrow> ('s \<Rightarrow> 'v) \<Rightarrow> 's world \<Rightarrow> 's action \<Rightarrow> 's world" where
  "step stringify derive w (Subscribe l) = snd (subscribe stringify derive l w)"
| "step stringify derive w (Unsubscribe h) = snd (unsubscribe h w)"
| "step stringify derive w (Update s) = snd (update stringify derive s w)"

definition run ::
  "('v \<Rightarrow> string option) \<Rightarrow> ('s \<Rightarrow> 'v) \<Rightarrow> 's action list \<Rightarrow> 's world \<Rightarrow> 's world" where
  "run stringify derive as w = foldl (step stringify derive) w as"

text \<open>The listeners called in a trace, in order, and the part of a trace added by a step.\<close>

fun calls :: "event list \<Rightarrow> nat list" where
  "calls [] = []"
| "calls (Called n # es) = n # calls es"
| "calls (_ # es) = calls es"

definition added :: "'s world \<Rightarrow> 's world \<Rightarrow> event list" where
  "added w w' = drop (length (trace w)) (trace w')"

subsection \<open>A model of \<open>JSON.stringify\<close> for concrete evaluation\<close>

text \<open>
  The theorems below hold for every \<open>stringify\<close>. To evaluate the controller on concrete
  states, the parameter is instantiated with the ECMAScript algorithm on a fragment of the
  JavaScript values: \<open>null\<close>, \<open>undefined\<close>, booleans, integral numbers (written without an
  exponent, which is how numbers of magnitude below \<open>10^21\<close> print), BigInts, strings of
  characters below \<open>U+0100\<close>, arrays, and plain objects given by their properties in
  enumeration order. A BigInt makes the call throw a \<open>TypeError\<close>; \<open>undefined\<close> is dropped
  from an object and printed as \<open>null\<close> in an array.
\<close>

datatype jsval =
    JNull | JUndefined | JBool bool | JNum int | JBigInt int | JStr string
  | JArr "jsval list" | JObj "(string \<times> jsval) list"

fun digits :: "nat \<Rightarrow> string" where
  "digits n =
     (if n < 10 then [char_of (48 + n)] else digits (n div 10) @ [char_of (48 + n mod 10)])"

definition NumberToString :: "int \<Rightarrow> string" where
  "NumberToString i = (if i < 0 then CHR ''-'' # digits (nat (- i)) else digits (nat i))"

definition hexdigit :: "nat \<Rightarrow> char" where
  "hexdigit n = (if n < 10 then char_of (48 + n) else char_of (87 + n))"

definition QuoteChar :: "char \<Rightarrow> string" where
  "QuoteChar c =
     (if c = CHR 0x22 then [CHR 0x5C, CHR 0x22]
      else if c = CHR 0x5C then [CHR 0x5C, CHR 0x5C]
      else if c = CHR 0x08 then [CHR 0x5C, CHR ''b'']
      else if c = CHR 0x0C then [CHR 0x5C, CHR ''f'']
      else if c = CHR 0x0A then [CHR 0x5C, CHR ''n'']
      else if c = CHR 0x0D then [CHR 0x5C, CHR ''r'']
      else if c = CHR 0x09 then [CHR 0x5C, CHR ''t'']
      else if of_char c < (32::nat)
        then [CHR 0x5C, CHR ''u'', CHR ''0'', CHR ''0'',
              hexdigit (of_char c div 16), hexdigit (of_char c mod 16)]
      else [c])"

definition QuoteJSONString :: "string \<Rightarrow> string" where
  "QuoteJSONString s = CHR 0x22 # concat (map QuoteChar s) @ [CHR 0x22]"

fun commas :: "string list \<Rightarrow> string" where
  "commas [] = []"
| "commas [s] = s"
| "commas (s # t # ss) = s @ CHR '','' # commas (t # ss)"

fun SerializeJSONProperty :: "jsval \<Rightarrow> error + string option"
and SerializeJSONArray :: "jsval list \<Rightarrow> error + string list"
and SerializeJSONObject :: "(string \<times> jsval) list \<Rightarrow> error + string list" where
  "SerializeJSONProperty JNull = Inr (Some ''null'')"
| "SerializeJSONProperty JUndefined = Inr None"
| "SerializeJSONProperty (JBool b) = Inr (Some (if b then ''true'' else ''false''))"
| "SerializeJSONProperty (JNum n) = Inr (Some (NumberToString n))"
| "SerializeJSONProperty (JBigInt n) = Inl TypeError"
| "SerializeJSONProperty (JStr s) = Inr (Some (QuoteJSONString s))"
| "SerializeJSONProperty (JArr vs) =
     (case SerializeJSONArray vs of
        Inl e \<Rightarrow> Inl e
      | Inr ss \<Rightarrow> Inr (Some (CHR ''['' # commas ss @ '']'')))"
| "SerializeJSONProperty (JObj ps) =
     (case SerializeJSONObject ps of
        Inl e \<Rightarrow> Inl e
      | Inr ss \<Rightarrow> Inr (Some (CHR ''{'' # commas ss @ ''}'')))"
| "SerializeJSONArray [] = Inr []"
| "SerializeJSONArray (v # vs) =
     (case SerializeJSONProperty v of
        Inl e \<Rightarrow> Inl e
      | Inr r \<Rightarrow>
          (case SerializeJSONArray vs of
             Inl e \<Rightarrow> Inl e
           | Inr ss \<Rightarrow> Inr ((case r of None \<Rightarrow> ''null'' | Some s \<Rightarrow> s) # ss)))"
| "SerializeJSONObject [] = Inr []"
| "SerializeJSONObject ((k, v) # ps) =
     (case SerializeJSONProperty v of
        Inl e \<Rightarrow> Inl e
      | Inr r \<Rightarrow>
          (case SerializeJSONObject ps of
             Inl e \<Rightarrow> Inl e
           | Inr ss \<Rightarrow>
               Inr ((case r of None \<Rightarrow> [] | Some s \<Rightarrow> [QuoteJSONString k @ CHR '':'' # s]) @ ss)))"

text \<open>
  \<open>JSON.stringify\<close> of a derived state, an object given by its properties: the string, or
  \<open>None\<close> when the call throws.
\<close>

definition JSON_stringify :: "(string \<times> jsval) list \<Rightarrow> string option" where
  "JSON_stringify ps =
     (case SerializeJSONProperty (JObj ps) of Inr (Some s) \<Rightarrow> Some s | _ \<Rightarrow> None)"

subsection \<open>Example states and histories\<close>

text \<open>
  The spec's example scenario: a controller whose derived state is \<open>{count: n}\<close>, and the
  histories in which one listener, or two, subscribe at \<open>{count: 2}\<close>. The derived state is
  the store's state itself (\<open>derive\<close> is \<open>id\<close>). \<open>{n: 1n}\<close> holds a BigInt and does not
  serialize.
\<close>

abbreviation count_state :: "int \<Rightarrow> (string \<times> jsval) list" where
  "count_state n \<equiv> [(''count'', JNum n)]"

abbreviation bigint_state :: "(string \<times> jsval) list" where
  "bigint_state \<equiv> [(''n'', JBigInt 1)]"

abbreviation subscribed_once :: "(string \<times> jsval) list world" where
  "subscribed_once \<equiv>
     run JSON_stringify id [Subscribe (Listener 7 False)] (buildController (count_state 2))"

abbreviation subscribed_twice :: "(string \<times> jsval) list world" where
  "subscribed_twice \<equiv>
     run JSON_stringify id [Subscribe (Listener 7 False), Subscribe (Listener 8 False)]
       (buildController (count_state 2))"

subsection \<open>Invariants of histories\<close>

text \<open>
  While a callback is registered and the current derived state serializes, \<open>prevState\<close>
  holds its serialization.
\<close>

definition baseline :: "('v \<Rightarrow> string option) \<Rightarrow> ('s \<Rightarrow> 'v) \<Rightarrow> 's world \<Rightarrow> bool" where
  "baseline stringify derive w \<longleftrightarrow>
     registered w = [] \<or> stringify (derive (store w)) = None \<or>
     prevState w = stringify (derive (store w))"

text \<open>
  A handle is retired once it has been issued and no registration carries it; the handles
  of the registrations are among those issued.
\<close>

definition retired :: "nat \<Rightarrow> 's world \<Rightarrow> bool" where
  "retired h w \<longleftrightarrow> h < issued w \<and> (\<forall>r \<in> set (registered w). fst r < issued w \<and> fst r \<noteq> h)"

definition handles_issued :: "'s world \<Rightarrow> bool" where
  "handles_issued w \<longleftrightarrow> (\<forall>r \<in> set (registered w). fst r < issued w)"

text \<open>
  The handle \<open>h\<close> has been issued and belongs to the listener \<open>l\<close>: every registration
  under it is of \<open>l\<close>. And: every registration of listener \<open>n\<close> is under \<open>h\<close>.
\<close>

definition owned :: "nat \<Rightarrow> listener \<Rightarrow> 's world \<Rightarrow> bool" where
  "owned h l w \<longleftrightarrow>
     h < issued w \<and> (\<forall>r \<in> set (registered w). fst r < issued w \<and> (fst r = h \<longrightarrow> snd r = l))"

definition sole :: "nat \<Rightarrow> nat \<Rightarrow> 's world \<Rightarrow> bool" where
  "sole h n w \<longleftrightarrow> (\<forall>r \<in> set (registered w). ident (snd r) = n \<longrightarrow> fst r = h)"

section \<open>Properties\<close>

declare digits.simps [simp del]

subsection \<open>Callbacks and notifications, step by step\<close>

lemma calls_append: "calls (xs @ ys) = calls xs @ calls ys"
  by (induction xs rule: calls.induct) simp_all

lemma calls_replicate_Stored: "calls (replicate n (Stored t)) = []"
  by (induction n) simp_all

lemma added_append: "trace w' = trace w @ es \<Longrightarrow> added w w' = es"
  by (simp add: added_def)

lemma callback_Some:
  "stringify (derive (store w)) = Some t \<Longrightarrow>
   callback stringify derive l w =
     (if prevState w \<noteq> Some t
      then (if throwing l then Inl (ListenerError (ident l)) else Inr (),
            w\<lparr>prevState := Some t, trace := trace w @ [Stored t, Called (ident l)]\<rparr>)
      else (Inr (), w\<lparr>prevState := Some t, trace := trace w @ [Stored t]\<rparr>))"
  by (simp add: callback_def hasStateChanged_def invoke_def)

lemma callback_None:
  "stringify (derive (store w)) = None \<Longrightarrow>
   callback stringify derive l w =
     (if throwing l then Inl (ListenerError (ident l)) else Inr (),
      w\<lparr>trace := trace w @ [Warned, Called (ident l)]\<rparr>)"
  by (simp add: callback_def hasStateChanged_def invoke_def)

lemma notify_unchanged:
  "stringify (derive (store w)) = Some t \<Longrightarrow> prevState w = Some t \<Longrightarrow>
   notify stringify derive ls w =
     (Inr (), w\<lparr>prevState := Some t, trace := trace w @ replicate (length ls) (Stored t)\<rparr>)"
proof (induction ls arbitrary: w)
  case Nil
  then show ?case by simp
next
  case (Cons l ls)
  let ?w1 = "w\<lparr>prevState := Some t, trace := trace w @ [Stored t]\<rparr>"
  have "callback stringify derive l w = (Inr (), ?w1)"
    using Cons.prems by (simp add: callback_Some)
  moreover have "notify stringify derive ls ?w1 =
      (Inr (), ?w1\<lparr>prevState := Some t, trace := trace ?w1 @ replicate (length ls) (Stored t)\<rparr>)"
    using Cons.prems by (intro Cons.IH) simp_all
  ultimately show ?case by simp
qed

lemma notify_changed:
  assumes "stringify (derive (store w)) = Some t" and "prevState w \<noteq> Some t"
  shows "notify stringify derive (l # ls) w =
     (if throwing l
      then (Inl (ListenerError (ident l)),
            w\<lparr>prevState := Some t, trace := trace w @ [Stored t, Called (ident l)]\<rparr>)
      else (Inr (),
            w\<lparr>prevState := Some t,
              trace := trace w @ [Stored t, Called (ident l)] @ replicate (length ls) (Stored t)\<rparr>))"
proof -
  let ?w1 = "w\<lparr>prevState := Some t, trace := trace w @ [Stored t, Called (ident l)]\<rparr>"
  have cb: "callback stringify derive l w =
      (if throwing l then Inl (ListenerError (ident l)) else Inr (), ?w1)"
    using assms by (simp add: callback_Some)
  have "notify stringify derive ls ?w1 =
      (Inr (), ?w1\<lparr>prevState := Some t, trace := trace ?w1 @ replicate (length ls) (Stored t)\<rparr>)"
    using assms by (intro notify_unchanged) simp_all
  with cb show ?thesis by simp
qed

text \<open>What a callback and a notification leave alone, and how they extend the trace.\<close>

lemma callback_frame:
  "store (snd (callback stringify derive l w)) = store w"
  "registered (snd (callback stringify derive l w)) = registered w"
  "issued (snd (callback stringify derive l w)) = issued w"
  by (cases "stringify (derive (store w))"; simp add: callback_Some callback_None)+

lemma notify_frame:
  "store (snd (notify stringify derive ls w)) = store w \<and>
   registered (snd (notify stringify derive ls w)) = registered w \<and>
   issued (snd (notify stringify derive ls w)) = issued w"
proof (induction ls arbitrary: w)
  case Nil
  then show ?case by simp
next
  case (Cons l ls)
  show ?case
  proof (cases "callback stringify derive l w")
    case (Pair r w')
    then have "store w' = store w" "registered w' = registered w" "issued w' = issued w"
      using callback_frame [of stringify derive l w] by simp_all
    with Pair Cons.IH [of w'] show ?thesis by (cases r) simp_all
  qed
qed

lemma callback_trace:
  "\<exists>es. trace (snd (callback stringify derive l w)) = trace w @ es \<and>
        (calls es = [] \<or> calls es = [ident l])"
  by (cases "stringify (derive (store w))") (simp_all add: callback_Some callback_None)

lemma notify_trace:
  "\<exists>es. trace (snd (notify stringify derive ls w)) = trace w @ es \<and>
        subseq (calls es) (map ident ls)"
proof (induction ls arbitrary: w)
  case Nil
  then show ?case by simp
next
  case (Cons l ls)
  obtain r w' where cb: "callback stringify derive l w = (r, w')"
    by (cases "callback stringify derive l w")
  obtain es where es: "trace w' = trace w @ es" "calls es = [] \<or> calls es = [ident l]"
    using callback_trace [of stringify derive l w] cb by auto
  show ?case
  proof (cases r)
    case (Inl e)
    with cb es show ?thesis by (auto intro!: exI [of _ es])
  next
    case (Inr u)
    obtain fs where fs: "trace (snd (notify stringify derive ls w')) = trace w' @ fs"
        "subseq (calls fs) (map ident ls)"
      using Cons.IH [of w'] by auto
    have "subseq (calls (es @ fs)) (map ident (l # ls))"
      using es(2) fs(2) by (auto simp: calls_append)
    with cb Inr es fs show ?thesis by (auto intro!: exI [of _ "es @ fs"])
  qed
qed

subsection \<open>\<open>subscribe\<close>, case by case\<close>

lemma buildController_fields [simp]:
  "store (buildController s) = s"
  "registered (buildController s) = []"
  "issued (buildController s) = 0"
  "prevState (buildController s) = None"
  "trace (buildController s) = []"
  by (simp_all add: buildController_def)

lemma subscribe_cases:
  "subscribe stringify derive l w =
     (if throwing l
      then (Inl (ListenerError (ident l)), w\<lparr>trace := trace w @ [Called (ident l)]\<rparr>)
      else (case stringify (derive (store w)) of
              None \<Rightarrow> (Inl TypeError, w\<lparr>trace := trace w @ [Called (ident l)]\<rparr>)
            | Some s \<Rightarrow>
                (Inr (issued w),
                 w\<lparr>registered := registered w @ [(issued w, l)], issued := Suc (issued w),
                   prevState := Some s, trace := trace w @ [Called (ident l), Stored s]\<rparr>)))"
  by (simp add: subscribe_def invoke_def engine_subscribe_def split: option.splits)

lemma count_two: "JSON_stringify (count_state 2) = Some ''{\"count\":2}''"
  by code_simp

lemma count_three: "JSON_stringify (count_state 3) = Some ''{\"count\":3}''"
  by code_simp

lemma bigint_throws: "JSON_stringify bigint_state = None"
  by code_simp

subsection \<open>Updates and histories\<close>

lemma subseq_mem: "subseq xs ys \<Longrightarrow> x \<in> set xs \<Longrightarrow> x \<in> set ys"
  by (auto dest: list_emb_set)

lemma update_frame:
  "store (snd (update stringify derive s w)) = s"
  "registered (snd (update stringify derive s w)) = registered w"
  "issued (snd (update stringify derive s w)) = issued w"
  using notify_frame [of stringify derive "map snd (registered w)" "w\<lparr>store := s\<rparr>"]
  by (simp_all add: update_def)

lemma update_trace:
  "\<exists>es. trace (snd (update stringify derive s w)) = trace w @ es \<and>
        subseq (calls es) (map (ident \<circ> snd) (registered w))"
  using notify_trace [of stringify derive "map snd (registered w)" "w\<lparr>store := s\<rparr>"]
  by (simp add: update_def)

lemma subscribe_trace:
  "\<exists>es. trace (snd (subscribe stringify derive l w)) = trace w @ es \<and> calls es = [ident l]"
  by (simp add: subscribe_cases split: option.splits)

lemma unsubscribe_fields [simp]:
  "store (snd (unsubscribe h w)) = store w"
  "registered (snd (unsubscribe h w)) = filter (\<lambda>r. fst r \<noteq> h) (registered w)"
  "issued (snd (unsubscribe h w)) = issued w"
  "prevState (snd (unsubscribe h w)) = prevState w"
  "trace (snd (unsubscribe h w)) = trace w"
  by (simp_all add: unsubscribe_def)

lemma run_Nil [simp]: "run stringify derive [] w = w"
  by (simp add: run_def)

lemma run_Cons [simp]:
  "run stringify derive (a # as) w = run stringify derive as (step stringify derive w a)"
  by (simp add: run_def)

lemma run_append:
  "run stringify derive (as @ bs) w = run stringify derive bs (run stringify derive as w)"
  by (simp add: run_def)

subsection \<open>The baseline is the serialization of the current derived state\<close>

lemma notify_prevState:
  assumes "stringify (derive (store w)) = Some t" and "ls \<noteq> []"
  shows "prevState (snd (notify stringify derive ls w)) = Some t"
proof -
  obtain l ls' where ls: "ls = l # ls'"
    using assms(2) by (cases ls) auto
  show ?thesis
  proof (cases "prevState w = Some t")
    case True
    with assms(1) show ?thesis by (simp add: notify_unchanged)
  next
    case False
    with assms(1) show ?thesis unfolding ls by (simp add: notify_changed del: notify.simps)
  qed
qed

lemma baseline_step:
  assumes "baseline stringify derive w"
  shows "baseline stringify derive (step stringify derive w a)"
proof (cases a)
  case (Subscribe l)
  with assms show ?thesis
    by (auto simp: baseline_def subscribe_cases split: option.splits)
next
  case (Unsubscribe h)
  with assms show ?thesis
    by (auto simp: baseline_def)
next
  case (Update s)
  show ?thesis
  proof (cases "registered w = [] \<or> stringify (derive s) = None")
    case True
    then show ?thesis
      using Update by (auto simp: baseline_def update_frame)
  next
    case False
    then obtain t where t: "stringify (derive s) = Some t" and ne: "map snd (registered w) \<noteq> []"
      by auto
    have "prevState (snd (notify stringify derive (map snd (registered w)) (w\<lparr>store := s\<rparr>))) = Some t"
      using t ne by (intro notify_prevState) simp_all
    then show ?thesis
      using Update t by (simp add: baseline_def update_frame) (simp add: update_def)
  qed
qed

lemma baseline_run:
  "baseline stringify derive w \<Longrightarrow> baseline stringify derive (run stringify derive as w)"
  by (induction as arbitrary: w) (simp_all add: baseline_step)

lemma baseline_buildController: "baseline stringify derive (buildController s)"
  by (simp add: baseline_def)

subsection \<open>Handles and silent listeners\<close>

lemma handles_issued_step:
  "handles_issued w \<Longrightarrow> handles_issued (step stringify derive w a)"
  by (cases a)
    (auto simp: handles_issued_def subscribe_cases update_frame less_Suc_eq split: option.splits)

lemma handles_issued_run:
  "handles_issued w \<Longrightarrow> handles_issued (run stringify derive as w)"
  by (induction as arbitrary: w) (simp_all add: handles_issued_step)

lemma retired_step:
  "retired h w \<Longrightarrow> retired h (step stringify derive w a)"
  by (cases a)
    (auto simp: retired_def subscribe_cases update_frame less_Suc_eq split: option.splits)

lemma retired_run:
  "retired h w \<Longrightarrow> retired h (run stringify derive as w)"
  by (induction as arbitrary: w) (simp_all add: retired_step)

lemma step_silent:
  assumes "n \<notin> ident ` snd ` set (registered w)"
    and "\<forall>l. a = Subscribe l \<longrightarrow> ident l \<noteq> n"
  shows "n \<notin> ident ` snd ` set (registered (step stringify derive w a)) \<and>
         (\<exists>es. trace (step stringify derive w a) = trace w @ es \<and> n \<notin> set (calls es))"
proof (cases a)
  case (Subscribe l)
  with assms show ?thesis
    by (auto simp: subscribe_cases split: option.splits)
next
  case (Unsubscribe h)
  with assms show ?thesis by auto
next
  case (Update s)
  obtain es where es: "trace (snd (update stringify derive s w)) = trace w @ es"
      "subseq (calls es) (map (ident \<circ> snd) (registered w))"
    using update_trace [of stringify derive s w] by auto
  have "n \<notin> set (calls es)"
    using subseq_mem [OF es(2), of n] assms(1) by auto
  with es(1) assms(1) Update show ?thesis
    by (simp add: update_frame)
qed

lemma run_silent:
  assumes "n \<notin> ident ` snd ` set (registered w)"
    and "\<forall>a \<in> set as. \<forall>l. a = Subscribe l \<longrightarrow> ident l \<noteq> n"
  shows "\<exists>es. trace (run stringify derive as w) = trace w @ es \<and> n \<notin> set (calls es)"
  using assms
proof (induction as arbitrary: w)
  case Nil
  then show ?case by simp
next
  case (Cons a as)
  let ?w = "step stringify derive w a"
  have a: "\<forall>l. a = Subscribe l \<longrightarrow> ident l \<noteq> n"
    using Cons.prems(2) by simp
  obtain es where es: "n \<notin> ident ` snd ` set (registered ?w)"
      "trace ?w = trace w @ es" "n \<notin> set (calls es)"
    using step_silent [OF Cons.prems(1) a, of stringify derive] by auto
  obtain fs where fs: "trace (run stringify derive as ?w) = trace ?w @ fs" "n \<notin> set (calls fs)"
    using Cons.IH [OF es(1)] Cons.prems(2) by auto
  show ?case
    using es fs by (auto simp: calls_append intro!: exI [of _ "es @ fs"])
qed

lemma owned_step:
  "owned h l w \<Longrightarrow> owned h l (step stringify derive w a)"
  by (cases a)
    (auto simp: owned_def subscribe_cases update_frame less_Suc_eq split: option.splits)

lemma owned_run:
  "owned h l w \<Longrightarrow> owned h l (run stringify derive as w)"
  by (induction as arbitrary: w) (simp_all add: owned_step)

lemma owned_subscribe:
  assumes "handles_issued w" and "subscribe stringify derive l w = (Inr h, w')"
  shows "owned h l w'"
proof -
  obtain t where h: "h = issued w"
    and w': "w' = w\<lparr>registered := registered w @ [(issued w, l)], issued := Suc (issued w),
                   prevState := Some t, trace := trace w @ [Called (ident l), Stored t]\<rparr>"
    using assms(2) by (auto simp: subscribe_cases split: if_splits option.splits)
  have "fst r < issued w \<and> fst r \<noteq> issued w" if "r \<in> set (registered w)" for r
    using assms(1) that by (auto simp: handles_issued_def)
  then show ?thesis
    unfolding owned_def h w' by (fastforce simp: less_Suc_eq)
qed

lemma owned_unsubscribe:
  assumes "owned h l w"
  shows "registered (snd (unsubscribe h w)) = removeAll (h, l) (registered w)"
    and "retired h (snd (unsubscribe h w))"
proof -
  have "filter (\<lambda>r. fst r \<noteq> h) (registered w) = filter (\<lambda>r. r \<noteq> (h, l)) (registered w)"
    using assms by (intro filter_cong) (auto simp: owned_def)
  then show "registered (snd (unsubscribe h w)) = removeAll (h, l) (registered w)"
    by (simp add: removeAll_filter_not_eq) (metis (mono_tags, lifting) filter_cong)
  show "retired h (snd (unsubscribe h w))"
    using assms by (auto simp: owned_def retired_def)
qed

lemma sole_step:
  assumes "sole h n w" and "\<forall>l. a = Subscribe l \<longrightarrow> ident l \<noteq> n"
  shows "sole h n (step stringify derive w a)"
  using assms
  by (cases a) (auto simp: sole_def subscribe_cases update_frame split: option.splits)

lemma sole_run:
  assumes "sole h n w" and "\<forall>a \<in> set as. \<forall>l. a = Subscribe l \<longrightarrow> ident l \<noteq> n"
  shows "sole h n (run stringify derive as w)"
  using assms by (induction as arbitrary: w) (simp_all add: sole_step)

lemma sole_subscribe:
  assumes "ident l \<notin> ident ` snd ` set (registered w)"
    and "subscribe stringify derive l w = (Inr h, w')"
  shows "sole h (ident l) w'"
proof -
  obtain t where h: "h = issued w"
    and w': "w' = w\<lparr>registered := registered w @ [(issued w, l)], issued := Suc (issued w),
                   prevState := Some t, trace := trace w @ [Called (ident l), Stored t]\<rparr>"
    using assms(2) by (auto simp: subscribe_cases split: if_splits option.splits)
  have "ident (snd r) \<noteq> ident l" if "r \<in> set (registered w)" for r
    using assms(1) that by (metis image_eqI)
  then show ?thesis
    unfolding sole_def h w' by fastforce
qed

lemma sole_unsubscribe:
  "sole h n w \<Longrightarrow> n \<notin> ident ` snd ` set (registered (snd (unsubscribe h w)))"
  by (auto simp: sole_def)

subsection \<open>Serializations and histories used as examples\<close>

lemma undefined_in_array:
  "JSON_stringify [(''values'', JArr [JUndefined])] = Some ''{\"values\":[null]}''"
  by code_simp

lemma null_in_array:
  "JSON_stringify [(''values'', JArr [JNull])] = Some ''{\"values\":[null]}''"
  by code_simp

lemma two_subscriptions:
  "subscribed_twice
   = \<lparr>store = count_state 2,
      registered = [(0, Listener 7 False), (1, Listener 8 False)], issued = 2,
      prevState = Some ''{\"count\":2}'',
      trace = [Called 7, Stored ''{\"count\":2}'', Called 8, Stored ''{\"count\":2}'']\<rparr>"
  by (simp add: subscribe_cases count_two buildController_def)

lemma one_subscription:
  "subscribed_once
   = \<lparr>store = count_state 2, registered = [(0, Listener 7 False)], issued = 1,
      prevState = Some ''{\"count\":2}'', trace = [Called 7, Stored ''{\"count\":2}'']\<rparr>"
  by (simp add: subscribe_cases count_two buildController_def)

lemma a_then_b:
  "JSON_stringify [(''a'', JNum 1), (''b'', JNum 2)] = Some ''{\"a\":1,\"b\":2}''"
  by code_simp

lemma b_then_a:
  "JSON_stringify [(''b'', JNum 2), (''a'', JNum 1)] = Some ''{\"b\":2,\"a\":1}''"
  by code_simp

section \<open>The claims\<close>

text \<open>
  C1, as amended. For every controller and every history of it: when a store update takes
  the derived state from one that serializes to one that serializes to a different string,
  the listener of the earliest registered active subscription is called exactly once for
  that update, and no other listener is called. (Nothing is said here about a change of the
  derived state that leaves the serialization the same.)
\<close>

theorem change_detection:
  assumes "w = run stringify derive as (buildController s0)"
    and "registered w = (h, l) # rest"
    and "stringify (derive (store w)) = Some t0"
    and "stringify (derive s) = Some t"
    and "t \<noteq> t0"
  shows "calls (added w (snd (update stringify derive s w))) = [ident l]"
proof -
  have "baseline stringify derive w"
    unfolding assms(1) by (intro baseline_run baseline_buildController)
  with assms(2,3) have prev: "prevState w = Some t0"
    by (simp add: baseline_def)
  have "notify stringify derive (l # map snd rest) (w\<lparr>store := s\<rparr>) =
     (if throwing l
      then (Inl (ListenerError (ident l)),
            w\<lparr>store := s, prevState := Some t, trace := trace w @ [Stored t, Called (ident l)]\<rparr>)
      else (Inr (),
            w\<lparr>store := s, prevState := Some t,
              trace := trace w @ [Stored t, Called (ident l)]
                 @ replicate (length (map snd rest)) (Stored t)\<rparr>))"
    using assms(4,5) prev
    by (subst notify_changed [where t = t]) simp_all
  then show ?thesis
    using assms(2)
    by (simp add: update_def added_def calls_append calls_replicate_Stored del: notify.simps)
qed

text \<open>
  The spec's example: \<open>{count: 2}\<close> at subscription, then an update to \<open>{count: 3}\<close>.
\<close>

theorem change_detection_witness:
  "subscribed_once
     = \<lparr>store = count_state 2, registered = [(0, Listener 7 False)], issued = 1,
        prevState = Some ''{\"count\":2}'',
        trace = [Called 7, Stored ''{\"count\":2}'']\<rparr> \<and>
   calls (added subscribed_once
     (snd (update JSON_stringify id (count_state 3) subscribed_once))) = [ident (Listener 7 False)]"
proof -
  let ?w = subscribed_once
  have w: "?w = \<lparr>store = count_state 2, registered = [(0, Listener 7 False)], issued = 1,
        prevState = Some ''{\"count\":2}'', trace = [Called 7, Stored ''{\"count\":2}'']\<rparr>"
    by (simp add: subscribe_cases count_two buildController_def)
  have "calls (added ?w (snd (update JSON_stringify id (count_state 3) ?w)))
          = [ident (Listener 7 False)]"
  proof (rule change_detection [where as = "[Subscribe (Listener 7 False)]"
        and ?s0.0 = "count_state 2" and h = 0 and rest = "[]"
        and ?t0.0 = "''{\"count\":2}''" and t = "''{\"count\":3}''"])
    show "?w = ?w" ..
    show "registered ?w = [(0, Listener 7 False)]" unfolding w by simp
    show "JSON_stringify (id (store ?w)) = Some ''{\"count\":2}''"
      unfolding w by (simp add: count_two)
    show "JSON_stringify (id (count_state 3)) = Some ''{\"count\":3}''"
      by (simp add: count_three)
    show "''{\"count\":3}'' \<noteq> ''{\"count\":2}''" by simp
  qed
  with w show ?thesis by simp
qed

text \<open>
  C1 as stated fails twice. A field of the derived state changes from \<open>[undefined]\<close> to
  \<open>[null]\<close>: both serialize to \<open>{"values":[null]}\<close> and the only listener is not called.
  And with two subscriptions on one controller, an update from \<open>{count: 2}\<close> to
  \<open>{count: 3}\<close> calls the first listener only; listener 8 stays registered and uncalled.
\<close>

theorem change_detection_counterexample:
  "[(''values'', JArr [JUndefined])] \<noteq> [(''values'', JArr [JNull])] \<and>
   registered (run JSON_stringify id [Subscribe (Listener 7 False)]
                (buildController [(''values'', JArr [JUndefined])])) = [(0, Listener 7 False)] \<and>
   calls (added
     (run JSON_stringify id [Subscribe (Listener 7 False)]
        (buildController [(''values'', JArr [JUndefined])]))
     (snd (update JSON_stringify id [(''values'', JArr [JNull])]
        (run JSON_stringify id [Subscribe (Listener 7 False)]
           (buildController [(''values'', JArr [JUndefined])]))))) = [] \<and>
   registered subscribed_twice = [(0, Listener 7 False), (1, Listener 8 False)] \<and>
   calls (added subscribed_twice
     (snd (update JSON_stringify id (count_state 3) subscribed_twice))) = [7]"
  by (simp add: subscribe_cases update_def callback_Some added_def
      undefined_in_array null_in_array count_two count_three)

text \<open>
  C2, as amended. For every controller and every history of it: when a store update
  produces a derived state that serializes, and to the same string as the previous derived
  state (as a fresh copy of unchanged data does, its properties in the same order), the
  update returns, no listener is called and \<open>prevState\<close> keeps its value.
\<close>

theorem change_suppression:
  assumes "w = run stringify derive as (buildController s0)"
    and "stringify (derive s) = stringify (derive (store w))"
    and "stringify (derive s) = Some t"
  shows "fst (update stringify derive s w) = Inr () \<and>
         calls (added w (snd (update stringify derive s w))) = [] \<and>
         prevState (snd (update stringify derive s w)) = prevState w"
proof (cases "registered w = []")
  case True
  then show ?thesis by (simp add: update_def added_def)
next
  case False
  have "baseline stringify derive w"
    unfolding assms(1) by (intro baseline_run baseline_buildController)
  moreover have "stringify (derive (store w)) = Some t"
    using assms(2,3) by simp
  ultimately have prev: "prevState w = Some t"
    using False by (auto simp: baseline_def)
  have "notify stringify derive (map snd (registered w)) (w\<lparr>store := s\<rparr>) =
     (Inr (), w\<lparr>store := s, prevState := Some t,
         trace := trace w @ replicate (length (map snd (registered w))) (Stored t)\<rparr>)"
    using assms(3) prev by (subst notify_unchanged [where t = t]) simp_all
  then show ?thesis
    using prev by (simp add: update_def added_def calls_replicate_Stored)
qed

text \<open>
  The spec's example: a second update producing \<open>{count: 3}\<close> again.
\<close>

theorem change_suppression_witness:
  "store (run JSON_stringify id [Subscribe (Listener 7 False), Update (count_state 3)]
        (buildController (count_state 2))) = count_state 3 \<and>
   fst (update JSON_stringify id (count_state 3)
     (run JSON_stringify id [Subscribe (Listener 7 False), Update (count_state 3)]
        (buildController (count_state 2)))) = Inr () \<and>
   calls (added
     (run JSON_stringify id [Subscribe (Listener 7 False), Update (count_state 3)]
        (buildController (count_state 2)))
     (snd (update JSON_stringify id (count_state 3)
        (run JSON_stringify id [Subscribe (Listener 7 False), Update (count_state 3)]
           (buildController (count_state 2)))))) = []"
proof -
  let ?w = "run JSON_stringify id [Subscribe (Listener 7 False), Update (count_state 3)]
              (buildController (count_state 2))"
  have st: "store ?w = count_state 3"
    by (simp add: update_frame)
  have "fst (update JSON_stringify id (count_state 3) ?w) = Inr () \<and>
        calls (added ?w (snd (update JSON_stringify id (count_state 3) ?w))) = [] \<and>
        prevState (snd (update JSON_stringify id (count_state 3) ?w)) = prevState ?w"
  proof (rule change_suppression [where as = "[Subscribe (Listener 7 False), Update (count_state 3)]"
        and ?s0.0 = "count_state 2" and t = "''{\"count\":3}''"])
    show "?w = ?w" ..
    show "JSON_stringify (id (count_state 3)) = JSON_stringify (id (store ?w))"
      unfolding st by simp
    show "JSON_stringify (id (count_state 3)) = Some ''{\"count\":3}''"
      by (simp add: count_three)
  qed
  with st show ?thesis by simp
qed

text \<open>
  C2 as stated fails twice. On a derived state that does not serialize: after an update to
  \<open>{n: 1n}\<close>, a second update producing the same \<open>{n: 1n}\<close> calls the listener again. And
  on a derived state with the same properties in another order: \<open>{a: 1, b: 2}\<close> and
  \<open>{b: 2, a: 1}\<close> both serialize, to different strings, and the listener is called.
\<close>

theorem change_suppression_counterexample:
  "store (run JSON_stringify id [Subscribe (Listener 7 False), Update bigint_state]
            (buildController (count_state 2))) = bigint_state \<and>
   registered (run JSON_stringify id [Subscribe (Listener 7 False), Update bigint_state]
            (buildController (count_state 2))) = [(0, Listener 7 False)] \<and>
   calls (added
     (run JSON_stringify id [Subscribe (Listener 7 False), Update bigint_state]
        (buildController (count_state 2)))
     (snd (update JSON_stringify id bigint_state
        (run JSON_stringify id [Subscribe (Listener 7 False), Update bigint_state]
           (buildController (count_state 2)))))) = [7] \<and>
   set [(''a'', JNum 1), (''b'', JNum 2)] = set [(''b'', JNum 2), (''a'', JNum 1)] \<and>
   JSON_stringify [(''a'', JNum 1), (''b'', JNum 2)] = Some ''{\"a\":1,\"b\":2}'' \<and>
   JSON_stringify [(''b'', JNum 2), (''a'', JNum 1)] = Some ''{\"b\":2,\"a\":1}'' \<and>
   calls (added
     (run JSON_stringify id [Subscribe (Listener 7 False)]
        (buildController [(''a'', JNum 1), (''b'', JNum 2)]))
     (snd (update JSON_stringify id [(''b'', JNum 2), (''a'', JNum 1)]
        (run JSON_stringify id [Subscribe (Listener 7 False)]
           (buildController [(''a'', JNum 1), (''b'', JNum 2)]))))) = [7]"
  by (simp add: subscribe_cases update_def callback_None callback_Some added_def count_two
      bigint_throws a_then_b b_then_a insert_commute)

text \<open>
  C3. The claim: \<open>subscribe\<close> lets no exception escape even when the derived state cannot be
  serialized, and the listener is still called on the next store update. The code at such
  a state: \<open>subscribe\<close> on a controller whose derived state is \<open>{n: 1n}\<close> calls the listener,
  then throws the \<open>TypeError\<close> of \<open>JSON.stringify\<close>; no callback is registered, and the
  next store update calls nothing.
\<close>

theorem subscribe_throws_on_unserializable_state:
  "fst (subscribe JSON_stringify id (Listener 7 False) (buildController bigint_state))
     = Inl TypeError \<and>
   registered (snd (subscribe JSON_stringify id (Listener 7 False)
                      (buildController bigint_state))) = [] \<and>
   calls (added
     (snd (subscribe JSON_stringify id (Listener 7 False) (buildController bigint_state)))
     (snd (update JSON_stringify id bigint_state
        (snd (subscribe JSON_stringify id (Listener 7 False)
                (buildController bigint_state)))))) = []"
  by (simp add: subscribe_cases update_def added_def bigint_throws)

text \<open>
  C4. When the serialization of the derived state fails during change detection in the
  notification callback, \<open>hasStateChanged\<close> answers "changed", a warning is logged and then
  the listener is called, \<open>prevState\<close> keeps its value, and the \<open>TypeError\<close> does not leave
  the callback: with a listener that does not throw, the callback returns.
\<close>

theorem fail_open_notification:
  "stringify (derive (store w)) = None \<Longrightarrow>
   fst (hasStateChanged stringify (derive (store w)) w) = True \<and>
   added w (snd (callback stringify derive l w)) = [Warned, Called (ident l)] \<and>
   prevState (snd (callback stringify derive l w)) = prevState w \<and>
   fst (callback stringify derive l w) \<noteq> Inl TypeError \<and>
   (\<not> throwing l \<longrightarrow> fst (callback stringify derive l w) = Inr ())"
  by (simp add: callback_None hasStateChanged_def added_def)

theorem fail_open_notification_witness:
  "JSON_stringify (id (store (buildController bigint_state))) = None \<and>
   added (buildController bigint_state)
     (snd (callback JSON_stringify id (Listener 7 False) (buildController bigint_state)))
     = [Warned, Called 7] \<and>
   fst (callback JSON_stringify id (Listener 7 False) (buildController bigint_state))
     = Inr ()"
proof -
  have h: "JSON_stringify (id (store (buildController bigint_state))) = None"
    by (simp add: bigint_throws)
  show ?thesis
    using h fail_open_notification [where stringify = JSON_stringify and derive = id
        and w = "buildController bigint_state" and l = "Listener 7 False"]
    by simp
qed



text \<open>
  C6. After any history \<open>as0\<close> of a controller, \<open>subscribe(l)\<close> returns the \<open>Unsubscribe\<close>
  function \<open>h\<close>; any history \<open>bs\<close> follows, then \<open>h\<close> is called, then any history \<open>cs\<close>.
  Calling \<open>h\<close> removes the registration \<open>(h, l)\<close> that this \<open>subscribe\<close> made and no other,
  and the engine never holds a callback under \<open>h\<close> again. Provided the listener \<open>l\<close> has no
  second registration (it was not registered before, and is not subscribed again in \<open>bs\<close>
  or \<open>cs\<close>), nothing in \<open>cs\<close> calls it.
\<close>

theorem post_unsubscribe_silence:
  assumes "w0 = run stringify derive as0 (buildController s0)"
    and "subscribe stringify derive l w0 = (Inr h, w1)"
    and "w2 = run stringify derive bs w1"
  shows "registered (snd (unsubscribe h w2)) = removeAll (h, l) (registered w2) \<and>
     h \<notin> fst ` set (registered (run stringify derive cs (snd (unsubscribe h w2)))) \<and>
     (ident l \<notin> ident ` snd ` set (registered w0) \<longrightarrow>
      (\<forall>a \<in> set (bs @ cs). \<forall>l'. a = Subscribe l' \<longrightarrow> ident l' \<noteq> ident l) \<longrightarrow>
      ident l \<notin> set (calls (added (snd (unsubscribe h w2))
                              (run stringify derive cs (snd (unsubscribe h w2))))))"
proof (intro conjI impI)
  have "handles_issued w0"
    unfolding assms(1) by (intro handles_issued_run) (simp add: handles_issued_def)
  then have "owned h l w1"
    using assms(2) by (rule owned_subscribe)
  then have own: "owned h l w2"
    unfolding assms(3) by (rule owned_run)
  then show "registered (snd (unsubscribe h w2)) = removeAll (h, l) (registered w2)"
    by (rule owned_unsubscribe)
  have "retired h (snd (unsubscribe h w2))"
    using own by (rule owned_unsubscribe)
  then have "retired h (run stringify derive cs (snd (unsubscribe h w2)))"
    by (rule retired_run)
  then show "h \<notin> fst ` set (registered (run stringify derive cs (snd (unsubscribe h w2))))"
    by (auto simp: retired_def)
next
  assume fresh: "ident l \<notin> ident ` snd ` set (registered w0)"
    and later: "\<forall>a \<in> set (bs @ cs). \<forall>l'. a = Subscribe l' \<longrightarrow> ident l' \<noteq> ident l"
  have "sole h (ident l) w1"
    using fresh assms(2) by (rule sole_subscribe)
  then have "sole h (ident l) w2"
    unfolding assms(3) using later by (intro sole_run) auto
  then have "ident l \<notin> ident ` snd ` set (registered (snd (unsubscribe h w2)))"
    by (rule sole_unsubscribe)
  moreover have "\<forall>a \<in> set cs. \<forall>l'. a = Subscribe l' \<longrightarrow> ident l' \<noteq> ident l"
    using later by auto
  ultimately have "\<exists>es.
      trace (run stringify derive cs (snd (unsubscribe h w2))) = trace (snd (unsubscribe h w2)) @ es \<and>
      ident l \<notin> set (calls es)"
    by (rule run_silent)
  then obtain es where
    "trace (run stringify derive cs (snd (unsubscribe h w2))) = trace (snd (unsubscribe h w2)) @ es"
    "ident l \<notin> set (calls es)"
    by blast
  then show "ident l \<notin> set (calls (added (snd (unsubscribe h w2))
                              (run stringify derive cs (snd (unsubscribe h w2)))))"
    by (simp add: added_def)
qed

text \<open>
  Listener 8 subscribes second and gets the handle 1. An update to a state that does not
  serialize calls both listeners; after the handle 1 has been called, it calls listener 7
  only.
\<close>

theorem post_unsubscribe_silence_witness:
  "subscribe JSON_stringify id (Listener 8 False) subscribed_once = (Inr 1, subscribed_twice) \<and>
   calls (added subscribed_twice
            (run JSON_stringify id [Update bigint_state] subscribed_twice)) = [7, 8] \<and>
   registered (snd (unsubscribe 1 subscribed_twice)) = [(0, Listener 7 False)] \<and>
   1 \<notin> fst ` set (registered (run JSON_stringify id [Update bigint_state]
                                (snd (unsubscribe 1 subscribed_twice)))) \<and>
   calls (added (snd (unsubscribe 1 subscribed_twice))
            (run JSON_stringify id [Update bigint_state]
               (snd (unsubscribe 1 subscribed_twice)))) = [7] \<and>
   8 \<notin> set (calls (added (snd (unsubscribe 1 subscribed_twice))
                      (run JSON_stringify id [Update bigint_state]
                         (snd (unsubscribe 1 subscribed_twice)))))"
proof -
  let ?cs = "[Update bigint_state]"
  have sub: "subscribe JSON_stringify id (Listener 8 False) subscribed_once
               = (Inr 1, subscribed_twice)"
    by (simp add: subscribe_cases count_two prod_eq_iff)
  have before: "calls (added subscribed_twice (run JSON_stringify id ?cs subscribed_twice)) = [7, 8]"
    unfolding two_subscriptions
    by (simp add: update_def callback_None bigint_throws added_def)
  have reg: "registered (snd (unsubscribe 1 subscribed_twice)) = [(0, Listener 7 False)]"
    unfolding two_subscriptions by simp
  have after: "calls (added (snd (unsubscribe 1 subscribed_twice))
            (run JSON_stringify id ?cs (snd (unsubscribe 1 subscribed_twice)))) = [7]"
    unfolding two_subscriptions
    by (simp add: update_def callback_None bigint_throws added_def unsubscribe_def)
  have fresh: "ident (Listener 8 False) \<notin> ident ` snd ` set (registered subscribed_once)"
    unfolding one_subscription by simp
  have later: "\<forall>a \<in> set ([] @ ?cs). \<forall>l'. a = Subscribe l' \<longrightarrow> ident l' \<noteq> ident (Listener 8 False)"
    by simp
  from post_unsubscribe_silence [where stringify = JSON_stringify and derive = id
      and ?as0.0 = "[Subscribe (Listener 7 False)]" and ?s0.0 = "count_state 2"
      and ?w0.0 = subscribed_once and l = "Listener 8 False" and h = 1
      and ?w1.0 = subscribed_twice and bs = "[]" and ?w2.0 = subscribed_twice and cs = ?cs,
      OF refl sub] fresh later
  have "1 \<notin> fst ` set (registered (run JSON_stringify id ?cs (snd (unsubscribe 1 subscribed_twice))))"
    and "ident (Listener 8 False) \<notin> set (calls (added (snd (unsubscribe 1 subscribed_twice))
          (run JSON_stringify id ?cs (snd (unsubscribe 1 subscribed_twice)))))"
    by (simp_all del: run_Cons)
  with sub before reg after show ?thesis by simp
qed

text \<open>
  C7. Calling the \<open>Unsubscribe\<close> function a second time leaves the engine's registrations
  (and everything else) exactly as the first call left them, and neither call throws. More
  generally, calling it at any moment at which its handle carries no registration changes
  nothing.
\<close>

theorem unsubscribe_idempotent:
  "fst (unsubscribe h w) = Inr () \<and>
   fst (unsubscribe h (snd (unsubscribe h w))) = Inr () \<and>
   snd (unsubscribe h (snd (unsubscribe h w))) = snd (unsubscribe h w) \<and>
   (h \<notin> fst ` set (registered v) \<longrightarrow> snd (unsubscribe h v) = v)"
proof -
  have "filter (\<lambda>r. fst r \<noteq> h) (registered v) = registered v"
    if "h \<notin> fst ` set (registered v)"
    using that by (auto simp: filter_id_conv)
  then show ?thesis by (simp add: unsubscribe_def)
qed

theorem unsubscribe_idempotent_witness:
  "registered (snd (unsubscribe 0 subscribed_twice)) = [(1, Listener 8 False)] \<and>
   snd (unsubscribe 0 (snd (unsubscribe 0 subscribed_twice)))
     = snd (unsubscribe 0 subscribed_twice) \<and>
   snd (unsubscribe 5 subscribed_twice) = subscribed_twice"
proof -
  let ?w = subscribed_twice
  have h: "5 \<notin> fst ` set (registered ?w)"
    unfolding two_subscriptions by simp
  have r: "registered (snd (unsubscribe 0 ?w)) = [(1, Listener 8 False)]"
    unfolding two_subscriptions by simp
  show ?thesis
    using unsubscribe_idempotent [where h = 0 and w = ?w and v = ?w]
      unsubscribe_idempotent [where h = 5 and w = ?w and v = ?w] h r
    by blast
qed

text \<open>
  C8, as amended. Every call of \<open>subscribe\<close> that returns registers exactly one more
  callback with the engine, after those already there (one that throws registers none);
  a callback calls no listener but its own, at most once; and in a single store update the
  listeners called are called in registration order: they are a subsequence of the
  registered listeners.
\<close>

theorem one_callback_per_subscription:
  "(\<forall>h. fst (subscribe stringify derive l w) = Inr h \<longrightarrow>
        registered (snd (subscribe stringify derive l w)) = registered w @ [(h, l)]) \<and>
   (\<forall>e. fst (subscribe stringify derive l w) = Inl e \<longrightarrow>
        registered (snd (subscribe stringify derive l w)) = registered w) \<and>
   (calls (added w (snd (callback stringify derive l w))) = [] \<or>
    calls (added w (snd (callback stringify derive l w))) = [ident l]) \<and>
   subseq (calls (added w (snd (update stringify derive s w))))
          (map (ident \<circ> snd) (registered w))"
proof -
  obtain es where "trace (snd (callback stringify derive l w)) = trace w @ es"
      "calls es = [] \<or> calls es = [ident l]"
    using callback_trace [of stringify derive l w] by auto
  then have cb: "calls (added w (snd (callback stringify derive l w))) = [] \<or>
    calls (added w (snd (callback stringify derive l w))) = [ident l]"
    by (simp add: added_def)
  obtain fs where "trace (snd (update stringify derive s w)) = trace w @ fs"
      "subseq (calls fs) (map (ident \<circ> snd) (registered w))"
    using update_trace [of stringify derive s w] by auto
  then have up: "subseq (calls (added w (snd (update stringify derive s w))))
          (map (ident \<circ> snd) (registered w))"
    by (simp add: added_def)
  have "(\<forall>h. fst (subscribe stringify derive l w) = Inr h \<longrightarrow>
        registered (snd (subscribe stringify derive l w)) = registered w @ [(h, l)]) \<and>
   (\<forall>e. fst (subscribe stringify derive l w) = Inl e \<longrightarrow>
        registered (snd (subscribe stringify derive l w)) = registered w)"
    by (simp add: subscribe_cases split: option.splits)
  with cb up show ?thesis by blast
qed

theorem one_callback_per_subscription_witness:
  "fst (subscribe JSON_stringify id (Listener 9 False) subscribed_twice) = Inr 2 \<and>
   registered (snd (subscribe JSON_stringify id (Listener 9 False) subscribed_twice))
     = [(0, Listener 7 False), (1, Listener 8 False), (2, Listener 9 False)] \<and>
   subseq (calls (added subscribed_twice
                    (snd (update JSON_stringify id (count_state 3) subscribed_twice))))
          [7, 8]"
proof -
  let ?w = subscribed_twice
  have r: "fst (subscribe JSON_stringify id (Listener 9 False) ?w) = Inr 2"
    unfolding two_subscriptions by (simp add: subscribe_cases count_two)
  have g: "registered ?w = [(0, Listener 7 False), (1, Listener 8 False)]"
    unfolding two_subscriptions by simp
  show ?thesis
    using one_callback_per_subscription [of JSON_stringify id "Listener 9 False" ?w
        "count_state 3"] r g
    by simp
qed

text \<open>
  C8 as stated fails: a controller with two subscriptions has two callbacks registered
  with the engine, one per subscription, and a controller nobody subscribed to has none;
  on an update from \<open>{count: 2}\<close> to \<open>{count: 3}\<close> the second of the two listeners is not
  called at all.
\<close>

theorem one_callback_per_controller_counterexample:
  "map snd (registered subscribed_twice) = [Listener 7 False, Listener 8 False] \<and>
   length (registered subscribed_twice) = 2 \<and>
   length (registered (buildController (count_state 2))) = 0 \<and>
   calls (added subscribed_twice
      (snd (update JSON_stringify id (count_state 3) subscribed_twice))) = [7]"
  unfolding two_subscriptions
  by (simp add: update_def callback_Some count_three added_def)

text \<open>
  C9, as amended. On a notification whose derived state serializes: when the serialization
  differs from the stored snapshot, the snapshot is updated first and the listener is
  called afterwards; when it is identical, the callback returns, no listener is called and
  the snapshot keeps its value.
\<close>

theorem snapshot_before_listener:
  "stringify (derive (store w)) = Some t \<Longrightarrow>
   (prevState w \<noteq> Some t \<longrightarrow>
      added w (snd (callback stringify derive l w)) = [Stored t, Called (ident l)] \<and>
      prevState (snd (callback stringify derive l w)) = Some t) \<and>
   (prevState w = Some t \<longrightarrow>
      fst (callback stringify derive l w) = Inr () \<and>
      calls (added w (snd (callback stringify derive l w))) = [] \<and>
      prevState (snd (callback stringify derive l w)) = prevState w)"
  by (simp add: callback_Some added_def)

text \<open>
  The callback of the only subscription, run once the store has committed \<open>{count: 3}\<close>.
\<close>

theorem snapshot_before_listener_witness:
  "JSON_stringify (id (store (subscribed_once\<lparr>store := count_state 3\<rparr>)))
     = Some ''{\"count\":3}'' \<and>
   prevState (subscribed_once\<lparr>store := count_state 3\<rparr>) = Some ''{\"count\":2}'' \<and>
   added (subscribed_once\<lparr>store := count_state 3\<rparr>)
     (snd (callback JSON_stringify id (Listener 7 False)
             (subscribed_once\<lparr>store := count_state 3\<rparr>)))
     = [Stored ''{\"count\":3}'', Called 7] \<and>
   prevState (snd (callback JSON_stringify id (Listener 7 False)
                     (subscribed_once\<lparr>store := count_state 3\<rparr>)))
     = Some ''{\"count\":3}''"
proof -
  let ?w = "subscribed_once\<lparr>store := count_state 3\<rparr>"
  have h: "JSON_stringify (id (store ?w)) = Some ''{\"count\":3}''"
    by (simp add: count_three)
  have p: "prevState ?w = Some ''{\"count\":2}''"
    unfolding one_subscription by simp
  show ?thesis
    using h p snapshot_before_listener [where stringify = JSON_stringify and derive = id
        and w = ?w and t = "''{\"count\":3}''" and l = "Listener 7 False"]
    by simp
qed

text \<open>
  C9 as stated fails: on an update from \<open>{count: 2}\<close> to \<open>{count: 3}\<close> the assignment to
  \<open>prevState\<close> comes before the call of the listener, not after it.
\<close>

theorem listener_before_snapshot_counterexample:
  "added subscribed_once
     (snd (update JSON_stringify id (count_state 3) subscribed_once))
     = [Stored ''{\"count\":3}'', Called 7] \<and>
   added subscribed_once
     (snd (update JSON_stringify id (count_state 3) subscribed_once))
     \<noteq> [Called 7, Stored ''{\"count\":3}'']"
  unfolding one_subscription
  by (simp add: update_def callback_Some count_three added_def)

text \<open>
  C10. The subscriptions of one controller share \<open>prevState\<close>. With no callback registered
  before, two listeners that do not throw are subscribed at a derived state serializing
  to \<open>a\<close>: each \<open>subscribe\<close> assigns \<open>prevState\<close> anew. A store update then produces a
  derived state serializing to \<open>b\<close>, different from \<open>a\<close>: the first callback stores \<open>b\<close>
  and calls its listener, the second compares \<open>b\<close> with the \<open>b\<close> just stored and calls
  nothing. So the first registered listener alone is called.
\<close>

theorem shared_snapshot:
  assumes "registered w0 = []"
    and "\<not> throwing l1" and "\<not> throwing l2"
    and "stringify (derive (store w0)) = Some a"
    and "stringify (derive s) = Some b"
    and "a \<noteq> b"
  shows "registered (run stringify derive [Subscribe l1, Subscribe l2] w0)
           = [(issued w0, l1), (Suc (issued w0), l2)] \<and>
         added w0 (run stringify derive [Subscribe l1, Subscribe l2] w0)
           = [Called (ident l1), Stored a, Called (ident l2), Stored a] \<and>
         prevState (run stringify derive [Subscribe l1, Subscribe l2] w0) = Some a \<and>
         added (run stringify derive [Subscribe l1, Subscribe l2] w0)
           (snd (update stringify derive s (run stringify derive [Subscribe l1, Subscribe l2] w0)))
           = [Stored b, Called (ident l1), Stored b] \<and>
         calls (added (run stringify derive [Subscribe l1, Subscribe l2] w0)
           (snd (update stringify derive s (run stringify derive [Subscribe l1, Subscribe l2] w0))))
           = [ident l1] \<and>
         fst (update stringify derive s (run stringify derive [Subscribe l1, Subscribe l2] w0))
           = Inr ()"
  using assms by (simp add: subscribe_cases update_def callback_Some added_def)

theorem shared_snapshot_witness:
  "registered subscribed_twice = [(0, Listener 7 False), (1, Listener 8 False)] \<and>
   added subscribed_twice
     (snd (update JSON_stringify id (count_state 3) subscribed_twice))
     = [Stored ''{\"count\":3}'', Called 7, Stored ''{\"count\":3}''] \<and>
   calls (added subscribed_twice
     (snd (update JSON_stringify id (count_state 3) subscribed_twice))) = [7]"
proof -
  have "registered (buildController (count_state 2)) = []"
    and "\<not> throwing (Listener 7 False)" and "\<not> throwing (Listener 8 False)"
    and "JSON_stringify (id (store (buildController (count_state 2)))) = Some ''{\"count\":2}''"
    and "JSON_stringify (id (count_state 3)) = Some ''{\"count\":3}''"
    and "''{\"count\":2}'' \<noteq> ''{\"count\":3}''"
    by (simp_all add: count_two count_three)
  from shared_snapshot [OF this(1-3), where stringify = JSON_stringify and derive = id, OF this(4-6)]
  show ?thesis by simp
qed

end
